theory Spec2Isabelle
  imports Complex_Main "HOL-Library.Multiset"
begin

section \<open>EasyGA: individuals, selection and recombination (src/easyga.py)\<close>

text \<open>
  The program is Python 2 (\<^verbatim>\<open>xrange\<close>, \<^verbatim>\<open>print\<close> statements), so \<^verbatim>\<open>/\<close> on
  two ints is floor division, which is \<open>div\<close> on \<open>int\<close>. Python ints are \<open>int\<close>.
  Fitness scores and the outcomes of \<^verbatim>\<open>random.random()\<close> are idealised as \<open>real\<close>.

  Individuals are objects with identity (\<^verbatim>\<open>is\<close>, and \<^verbatim>\<open>in\<close> on tuples of objects
  without \<^verbatim>\<open>__eq__\<close>, compare references), so they live in a store and are named
  by references. The store also keeps the log of the genomes the external scoring
  function was invoked on.
\<close>

subsection \<open>Data model\<close>

datatype error = ValueError | IndexError

type_synonym ref = nat

record Chromasome =
  n_bits :: int
  fitness_fnc :: "int list \<Rightarrow> real"
  fitness_val :: "real option"
  bit_string :: "int list"
  fitness_calculated :: bool

record store =
  objs :: "Chromasome list"
  calls :: "int list list"

record GeneticAlgorithm =
  population_size :: int
  ga_fitness_fnc :: "int list \<Rightarrow> real"
  bit_string_len :: int
  population :: "ref list"

subsection \<open>Python primitives\<close>

text \<open>\<^verbatim>\<open>range(n)\<close> for an int \<open>n\<close>: empty when \<open>n \<le> 0\<close>.\<close>

definition py_range :: "int \<Rightarrow> nat list" where
  "py_range n = [0..<nat n]"

text \<open>\<^verbatim>\<open>xs[:p]\<close> and \<^verbatim>\<open>xs[p:]\<close>: a negative bound counts from the end, and bounds
  outside the list are clipped, never an error.\<close>

definition slice_to :: "'a list \<Rightarrow> int \<Rightarrow> 'a list" where
  "slice_to xs p = (if p < 0 then take (nat (int (length xs) + p)) xs else take (nat p) xs)"

definition slice_from :: "'a list \<Rightarrow> int \<Rightarrow> 'a list" where
  "slice_from xs p = (if p < 0 then drop (nat (int (length xs) + p)) xs else drop (nat p) xs)"

text \<open>\<^verbatim>\<open>int(not b)\<close>.\<close>

definition py_not :: "int \<Rightarrow> int" where
  "py_not b = (if b = 0 then 1 else 0)"

text \<open>\<^verbatim>\<open>random.uniform(a, b)\<close> is \<^verbatim>\<open>a + (b-a) * self.random()\<close>; \<open>u\<close> is the outcome
  of \<^verbatim>\<open>random()\<close>, which lies in \<open>[0, 1)\<close>.\<close>

definition uniform :: "real \<Rightarrow> real \<Rightarrow> real \<Rightarrow> real" where
  "uniform a b u = a + (b - a) * u"

text \<open>\<^verbatim>\<open>random.choice(xs)\<close> on a non-empty sequence: the outcome \<open>d\<close> of the generator
  selects an element; every element can be selected and nothing else. On an empty
  sequence Python raises IndexError, which the callers below test first.\<close>

definition choice :: "'a list \<Rightarrow> nat \<Rightarrow> 'a" where
  "choice xs d = xs ! (d mod length xs)"

subsection \<open>Chromasome\<close>

text \<open>\<^verbatim>\<open>Chromasome.__init__\<close>: the field values, then the allocation of the object.\<close>

definition Chromasome_init :: "int \<Rightarrow> (int list \<Rightarrow> real) \<Rightarrow> Chromasome" where
  "Chromasome_init n f =
     \<lparr>n_bits = n, fitness_fnc = f, fitness_val = None,
      bit_string = map (\<lambda>i. 0) (py_range n), fitness_calculated = False\<rparr>"

definition new_Chromasome :: "store \<Rightarrow> int \<Rightarrow> (int list \<Rightarrow> real) \<Rightarrow> store \<times> ref" where
  "new_Chromasome w n f = (w\<lparr>objs := objs w @ [Chromasome_init n f]\<rparr>, length (objs w))"

text \<open>\<^verbatim>\<open>randomise\<close>: \<open>rc i\<close> is the outcome of the generator at the \<open>i\<close>-th call of
  \<^verbatim>\<open>random.choice([0, 1])\<close>. Returns \<^verbatim>\<open>self\<close>.\<close>

definition randomise :: "store \<Rightarrow> ref \<Rightarrow> (nat \<Rightarrow> nat) \<Rightarrow> store \<times> ref" where
  "randomise w self rc =
     (let c = objs w ! self;
          bs = map (\<lambda>i. choice [0, 1] (rc i)) (py_range (n_bits c))
      in (w\<lparr>objs := (objs w)[self := c\<lparr>bit_string := bs\<rparr>]\<rparr>, self))"

text \<open>\<^verbatim>\<open>mutate\<close>: \<open>rnd i\<close> is the outcome of \<^verbatim>\<open>random.random()\<close> in iteration \<open>i\<close>.
  The cached fitness is left as it is. Returns \<^verbatim>\<open>self\<close>.\<close>

definition mutate_step :: "real \<Rightarrow> (nat \<Rightarrow> real) \<Rightarrow> nat \<Rightarrow> int list \<Rightarrow> int list" where
  "mutate_step rate rnd i bs = (if rnd i \<le> rate then bs[i := py_not (bs ! i)] else bs)"

definition mutate :: "store \<Rightarrow> ref \<Rightarrow> real \<Rightarrow> (nat \<Rightarrow> real) \<Rightarrow> store \<times> ref" where
  "mutate w self rate rnd =
     (let c = objs w ! self;
          bs = fold (mutate_step rate rnd) (py_range (int (length (bit_string c)))) (bit_string c)
      in (w\<lparr>objs := (objs w)[self := c\<lparr>bit_string := bs\<rparr>]\<rparr>, self))"

text \<open>\<^verbatim>\<open>fitness\<close>: the cached score if there is one, else one invocation of the scoring
  function (logged), whose result is cached.\<close>

definition fitness :: "store \<Rightarrow> ref \<Rightarrow> store \<times> real" where
  "fitness w self =
     (let c = objs w ! self
      in case fitness_val c of
           Some v \<Rightarrow> (w, v)
         | None \<Rightarrow>
             (let v = fitness_fnc c (bit_string c)
              in (w\<lparr>objs := (objs w)[self := c\<lparr>fitness_val := Some v\<rparr>],
                    calls := calls w @ [bit_string c]\<rparr>, v)))"

text \<open>\<^verbatim>\<open>crossoverSinglePoint\<close>: no check of \<open>pivot\<close>; the slices clip.\<close>

definition crossoverSinglePoint :: "store \<Rightarrow> ref \<Rightarrow> ref \<Rightarrow> int \<Rightarrow> store \<times> ref" where
  "crossoverSinglePoint w self mate pivot =
     (let s = objs w ! self; m = objs w ! mate;
          (w1, child) = new_Chromasome w (n_bits s) (fitness_fnc s);
          bs = slice_to (bit_string s) pivot @ slice_from (bit_string m) pivot
      in (w1\<lparr>objs := (objs w1)[child := (objs w1 ! child)\<lparr>bit_string := bs\<rparr>]\<rparr>, child))"

text \<open>\<^verbatim>\<open>crossoverUniform\<close>: \<open>rnd i\<close> is the outcome of \<^verbatim>\<open>random.random()\<close> in iteration
  \<open>i\<close>; \<^verbatim>\<open>int(random.random() > 0.5)\<close> indexes \<^verbatim>\<open>[self, mate]\<close>. Reading a parent's
  bit or writing the child's bit beyond the list raises IndexError.\<close>

fun uniform_loop ::
  "int list \<Rightarrow> int list \<Rightarrow> (nat \<Rightarrow> real) \<Rightarrow> nat list \<Rightarrow> int list \<Rightarrow> error + int list" where
  "uniform_loop sb mb rnd [] cb = Inr cb"
| "uniform_loop sb mb rnd (i # is) cb =
     (let src = (if rnd i > 1 / 2 then mb else sb)
      in if i < length src \<and> i < length cb
         then uniform_loop sb mb rnd is (cb[i := src ! i])
         else Inl IndexError)"

definition crossoverUniform ::
  "store \<Rightarrow> ref \<Rightarrow> ref \<Rightarrow> (nat \<Rightarrow> real) \<Rightarrow> error + store \<times> ref" where
  "crossoverUniform w self mate rnd =
     (let s = objs w ! self; m = objs w ! mate;
          (w1, child) = new_Chromasome w (n_bits s) (fitness_fnc s)
      in case uniform_loop (bit_string s) (bit_string m) rnd
                (py_range (int (length (bit_string s)))) (bit_string (objs w1 ! child)) of
           Inl e \<Rightarrow> Inl e
         | Inr bs \<Rightarrow>
             Inr (w1\<lparr>objs := (objs w1)[child := (objs w1 ! child)\<lparr>bit_string := bs\<rparr>]\<rparr>, child))"

subsection \<open>GeneticAlgorithm\<close>

text \<open>The keys \<^verbatim>\<open>genotype.fitness()\<close> of a list of individuals, computed in list order.\<close>

fun fitness_all :: "store \<Rightarrow> ref list \<Rightarrow> store \<times> real list" where
  "fitness_all w [] = (w, [])"
| "fitness_all w (r # rs) =
     (let (w1, v) = fitness w r; (w2, vs) = fitness_all w1 rs in (w2, v # vs))"

text \<open>\<^verbatim>\<open>sorted(population, key=lambda g: g.fitness(), reverse=True)\<close>: the keys are
  computed first, then the list is sorted by descending key; Python's sort is stable
  also with \<^verbatim>\<open>reverse=True\<close> (equal keys keep their order).\<close>

definition sorted_by_fitness :: "store \<Rightarrow> ref list \<Rightarrow> store \<times> ref list" where
  "sorted_by_fitness w pop =
     (let (w1, ks) = fitness_all w pop
      in (w1, map snd (sort_key (\<lambda>(k, r). - k) (zip ks pop))))"

text \<open>One walk of the roulette wheel: the first individual whose cumulative fitness
  reaches \<open>r\<close>, or \<^verbatim>\<open>None\<close> when the loop ends without a \<^verbatim>\<open>break\<close>.\<close>

fun pick :: "store \<Rightarrow> ref list \<Rightarrow> real \<Rightarrow> real \<Rightarrow> store \<times> ref option" where
  "pick w [] cumulative_fitness r = (w, None)"
| "pick w (individual # rest) cumulative_fitness r =
     (let (w1, v) = fitness w individual;
          cumulative_fitness' = cumulative_fitness + v
      in if cumulative_fitness' \<ge> r then (w1, Some individual)
         else pick w1 rest cumulative_fitness' r)"

text \<open>The \<^verbatim>\<open>while\<close> loop of \<^verbatim>\<open>getRoulettePairs\<close>. The list holds the outcomes of
  \<^verbatim>\<open>random.random()\<close>, two per iteration; \<open>None\<close> says that they ran out before the
  loop ended. \<^verbatim>\<open>is not\<close> and \<^verbatim>\<open>not in\<close> compare references.\<close>

fun roulette_loop ::
  "store \<Rightarrow> ref list \<Rightarrow> real \<Rightarrow> int \<Rightarrow> (ref option \<times> ref option) list \<Rightarrow> real list
   \<Rightarrow> (store \<times> (ref option \<times> ref option) list) option" where
  "roulette_loop w pop total_fitness n_pairs parent_pairs (u1 # u2 # us) =
     (if int (length parent_pairs) < n_pairs then
        (let (w1, left_parent) = pick w pop 0 (uniform 0 total_fitness u1);
             (w2, right_parent) = pick w1 pop 0 (uniform 0 total_fitness u2)
         in if left_parent \<noteq> right_parent \<and> (left_parent, right_parent) \<notin> set parent_pairs
            then roulette_loop w2 pop total_fitness n_pairs
                   (parent_pairs @ [(left_parent, right_parent)]) us
            else roulette_loop w2 pop total_fitness n_pairs parent_pairs us)
      else Some (w, parent_pairs))"
| "roulette_loop w pop total_fitness n_pairs parent_pairs us =
     (if int (length parent_pairs) < n_pairs then None else Some (w, parent_pairs))"

text \<open>\<^verbatim>\<open>getRoulettePairs\<close>: no check of the total fitness, no \<^verbatim>\<open>raise\<close>.\<close>

definition getRoulettePairs ::
  "store \<Rightarrow> GeneticAlgorithm \<Rightarrow> int \<Rightarrow> real list
   \<Rightarrow> (store \<times> GeneticAlgorithm \<times> (ref option \<times> ref option) list) option" where
  "getRoulettePairs w ga n_pairs us =
     (let (w1, pop) = sorted_by_fitness w (population ga);
          ga1 = ga\<lparr>population := pop\<rparr>;
          (w2, vs) = fitness_all w1 pop;
          total_fitness = sum_list vs
      in case roulette_loop w2 pop total_fitness n_pairs [] us of
           None \<Rightarrow> None
         | Some (w3, parent_pairs) \<Rightarrow> Some (w3, ga1, parent_pairs))"

text \<open>The loop of \<^verbatim>\<open>getBestPairs\<close>: \<^verbatim>\<open>random.choice\<close> raises IndexError on an
  empty elite list; the draws \<open>ds\<close> are the outcomes of the generator, two per iteration,
  and \<open>None\<close> says that they ran out before the loop ended.\<close>

fun best_loop ::
  "ref list \<Rightarrow> int \<Rightarrow> (ref \<times> ref) list \<Rightarrow> nat list \<Rightarrow> (error + (ref \<times> ref) list) option" where
  "best_loop elites psize parent_pairs ds =
     (if int (length parent_pairs) < psize then
        (if elites = [] then Some (Inl IndexError)
         else case ds of
                d1 # d2 # ds' \<Rightarrow>
                  (let p1 = choice elites d1; p2 = choice elites d2
                   in if p1 \<noteq> p2 \<and> (p1, p2) \<notin> set parent_pairs
                      then best_loop elites psize (parent_pairs @ [(p1, p2)]) ds'
                      else best_loop elites psize parent_pairs ds')
              | _ \<Rightarrow> None)
      else Some (Inr parent_pairs))"

declare best_loop.simps [simp del]

text \<open>\<^verbatim>\<open>getBestPairs\<close>: the population is replaced by the sorted one before the loop, so
  the state is returned also when the loop raises. \<open>n_elites\<close> is not used.\<close>

definition getBestPairs ::
  "store \<Rightarrow> GeneticAlgorithm \<Rightarrow> int \<Rightarrow> int \<Rightarrow> nat list
   \<Rightarrow> (store \<times> GeneticAlgorithm \<times> (error + (ref \<times> ref) list)) option" where
  "getBestPairs w ga n_pairs n_elites ds =
     (let (w1, pop) = sorted_by_fitness w (population ga);
          ga1 = ga\<lparr>population := pop\<rparr>;
          elites = slice_to pop n_pairs
      in case best_loop elites (population_size ga1) [] ds of
           None \<Rightarrow> None
         | Some res \<Rightarrow> Some (w1, ga1, res))"




subsection \<open>Properties used in the statements\<close>

text \<open>The genome of an individual has the length its \<open>n_bits\<close> field says.\<close>

definition genome_ok :: "Chromasome \<Rightarrow> bool" where
  "genome_ok c = (int (length (bit_string c)) = n_bits c)"

text \<open>Object \<open>r\<close> exists in the store, its \<open>n_bits\<close> field is \<open>n\<close> and its genome has
  exactly \<open>n\<close> bits.\<close>

definition has_genome :: "store \<Rightarrow> ref \<Rightarrow> int \<Rightarrow> bool" where
  "has_genome w r n =
     (r < length (objs w) \<and> n_bits (objs w ! r) = n \<and> int (length (bit_string (objs w ! r))) = n)"

text \<open>A scored population: every individual has a cached fitness, which is then what
  \<^verbatim>\<open>fitness()\<close> returns.\<close>

definition cached_fitness :: "store \<Rightarrow> ref \<Rightarrow> real" where
  "cached_fitness w r = the (fitness_val (objs w ! r))"

definition scored :: "store \<Rightarrow> ref list \<Rightarrow> bool" where
  "scored w pop = list_all (\<lambda>r. fitness_val (objs w ! r) \<noteq> None) pop"



text \<open>A list of pairs without repetition whose two sides differ.\<close>

definition pairs_ok :: "('a \<times> 'a) list \<Rightarrow> bool" where
  "pairs_ok ps = (distinct ps \<and> list_all (\<lambda>(a, b). a \<noteq> b) ps)"

subsection \<open>Example stores\<close>

definition count_ones :: "int list \<Rightarrow> real" where
  "count_ones bs = real_of_int (sum_list bs)"

definition chrom :: "int list \<Rightarrow> real option \<Rightarrow> Chromasome" where
  "chrom bs fv =
     \<lparr>n_bits = int (length bs), fitness_fnc = count_ones, fitness_val = fv,
      bit_string = bs, fitness_calculated = False\<rparr>"

definition w_cross :: store where
  "w_cross = \<lparr>objs = [chrom [1, 1, 1, 1] None, chrom [0, 0, 0, 0] None], calls = []\<rparr>"

definition w_mut :: store where
  "w_mut = \<lparr>objs = [chrom [0, 1] None], calls = []\<rparr>"

definition w_scored :: store where
  "w_scored = \<lparr>objs = [chrom [1, 0] (Some 1), chrom [1, 1] None], calls = []\<rparr>"

definition w_pair :: store where
  "w_pair = \<lparr>objs = [chrom [1, 0] (Some 1), chrom [0, 1] (Some 1)], calls = []\<rparr>"

definition ga_pair :: GeneticAlgorithm where
  "ga_pair = \<lparr>population_size = 2, ga_fitness_fnc = count_ones, bit_string_len = 2,
              population = [0, 1]\<rparr>"

definition w_asc :: store where
  "w_asc = \<lparr>objs = [chrom [1, 0] (Some 1), chrom [1, 1] (Some 2)], calls = []\<rparr>"

definition w_zero :: store where
  "w_zero = \<lparr>objs = [chrom [0, 0] (Some 0), chrom [0, 0] (Some 0)], calls = []\<rparr>"



section \<open>Theorems\<close>

subsection \<open>Construction\<close>

text \<open>
  Claim C10. For every \<open>n_bits > 0\<close> and fitness function, a freshly constructed
  Chromasome (before randomise is called) has a genome of exactly \<open>n_bits\<close> bits, all
  equal to 0, and no cached fitness value.
\<close>

theorem fresh_chromasome_zero:
  assumes "0 < n" and "new_Chromasome w n f = (w', r)"
  shows "int (length (bit_string (objs w' ! r))) = n
       \<and> list_all (\<lambda>b. b = 0) (bit_string (objs w' ! r))
       \<and> fitness_val (objs w' ! r) = None"
proof -
  from assms(2) have w': "w' = w\<lparr>objs := objs w @ [Chromasome_init n f]\<rparr>"
    and r: "r = length (objs w)"
    by (simp_all add: new_Chromasome_def)
  have c: "objs w' ! r = Chromasome_init n f"
    by (simp add: w' r)
  show ?thesis
    using assms(1) by (simp add: c Chromasome_init_def py_range_def list_all_iff)
qed

theorem fresh_chromasome_zero_witness:
  "(0::int) < 4
   \<and> int (length (bit_string (objs (fst (new_Chromasome w_cross 4 count_ones))
             ! snd (new_Chromasome w_cross 4 count_ones)))) = 4
   \<and> fitness_val (objs (fst (new_Chromasome w_cross 4 count_ones))
             ! snd (new_Chromasome w_cross 4 count_ones)) = None"
proof -
  have h: "(0::int) < 4" by simp
  show ?thesis
    using h fresh_chromasome_zero [OF h, of w_cross count_ones
        "fst (new_Chromasome w_cross 4 count_ones)" "snd (new_Chromasome w_cross 4 count_ones)"]
    by simp
qed

subsection \<open>Single-point crossover of two individuals\<close>

lemma w_cross_facts:
  "(0::nat) < length (objs w_cross)" "(1::nat) < length (objs w_cross)"
  "genome_ok (objs w_cross ! 0)" "genome_ok (objs w_cross ! 1)"
  "n_bits (objs w_cross ! 1) = n_bits (objs w_cross ! 0)"
  "n_bits (objs w_cross ! 0) = 4"
  "list_all genome_ok (objs w_cross)"
  by (simp_all add: w_cross_def chrom_def genome_ok_def)

text \<open>
  Claim C3. For parents with genomes of length \<open>n_bits\<close> and a pivot \<open>k\<close> with
  \<open>0 \<le> k \<le> n_bits\<close>, \<^verbatim>\<open>p1.crossoverSinglePoint(p2, k)\<close> returns a new individual whose
  genome is the first \<open>k\<close> bits of \<open>p1\<close> followed by the bits of \<open>p2\<close> from position
  \<open>k\<close> on; it has no cached fitness, and both parents are as they were.
\<close>

theorem crossoverSinglePoint_genome:
  assumes "self < length (objs w)" and "mate < length (objs w)"
    and "genome_ok (objs w ! self)" and "genome_ok (objs w ! mate)"
    and "n_bits (objs w ! mate) = n_bits (objs w ! self)"
    and "0 \<le> k" and "k \<le> n_bits (objs w ! self)"
    and "crossoverSinglePoint w self mate k = (w', child)"
  shows "bit_string (objs w' ! child)
           = take (nat k) (bit_string (objs w ! self)) @ drop (nat k) (bit_string (objs w ! mate))
       \<and> fitness_val (objs w' ! child) = None
       \<and> child \<noteq> self \<and> child \<noteq> mate
       \<and> objs w' ! self = objs w ! self \<and> objs w' ! mate = objs w ! mate"
proof -
  from assms(8) have ch: "child = length (objs w)"
    and w': "objs w' = (objs w @ [Chromasome_init (n_bits (objs w ! self)) (fitness_fnc (objs w ! self))])
        [child := (Chromasome_init (n_bits (objs w ! self)) (fitness_fnc (objs w ! self)))
           \<lparr>bit_string := slice_to (bit_string (objs w ! self)) k @ slice_from (bit_string (objs w ! mate)) k\<rparr>]"
    by (auto simp: crossoverSinglePoint_def new_Chromasome_def Let_def)
  have "objs w' ! child = (Chromasome_init (n_bits (objs w ! self)) (fitness_fnc (objs w ! self)))
           \<lparr>bit_string := slice_to (bit_string (objs w ! self)) k @ slice_from (bit_string (objs w ! mate)) k\<rparr>"
    by (simp add: w' ch)
  moreover have "objs w' ! self = objs w ! self" "objs w' ! mate = objs w ! mate"
    using assms(1,2) by (simp_all add: w' ch nth_append)
  ultimately show ?thesis
    using assms(1,2,6) by (simp add: ch slice_to_def slice_from_def Chromasome_init_def)
qed

theorem crossoverSinglePoint_genome_witness:
  "genome_ok (objs w_cross ! 0) \<and> genome_ok (objs w_cross ! 1)
   \<and> (0::int) \<le> 2 \<and> 2 \<le> n_bits (objs w_cross ! 0)
   \<and> bit_string (objs (fst (crossoverSinglePoint w_cross 0 1 2))
                  ! snd (crossoverSinglePoint w_cross 0 1 2)) = [1, 1, 0, 0]
   \<and> fitness_val (objs (fst (crossoverSinglePoint w_cross 0 1 2))
                  ! snd (crossoverSinglePoint w_cross 0 1 2)) = None
   \<and> bit_string (objs (fst (crossoverSinglePoint w_cross 0 1 2)) ! 0) = [1, 1, 1, 1]
   \<and> bit_string (objs (fst (crossoverSinglePoint w_cross 0 1 2)) ! 1) = [0, 0, 0, 0]"
proof -
  have k: "(0::int) \<le> 2" "2 \<le> n_bits (objs w_cross ! 0)"
    by (simp_all add: w_cross_facts)
  have run: "crossoverSinglePoint w_cross 0 1 2
     = (fst (crossoverSinglePoint w_cross 0 1 2), snd (crossoverSinglePoint w_cross 0 1 2))"
    by simp
  have bits: "bit_string (objs w_cross ! 0) = [1, 1, 1, 1]"
    "bit_string (objs w_cross ! Suc 0) = [0, 0, 0, 0]"
    by (simp_all add: w_cross_def chrom_def)
  show ?thesis
    using crossoverSinglePoint_genome [OF w_cross_facts(1,2,3,4,5) k run] w_cross_facts(3,4) k
    by (simp add: bits)
qed

text \<open>
  Claim C5 says that a pivot outside \<open>[0, n_bits]\<close> raises an invalid-argument error.
  The method has no check: with \<open>n_bits = 4\<close> and pivot 5 it returns an offspring,
  a copy of the genome of \<^verbatim>\<open>self\<close>.
\<close>

theorem crossoverSinglePoint_returns_out_of_range:
  "snd (crossoverSinglePoint w_cross 0 1 5) = 2
   \<and> bit_string (objs (fst (crossoverSinglePoint w_cross 0 1 5)) ! 2) = [1, 1, 1, 1]
   \<and> n_bits (objs w_cross ! 0) = 4"
  by (simp add: w_cross_def chrom_def crossoverSinglePoint_def new_Chromasome_def Let_def
      slice_to_def slice_from_def Chromasome_init_def)

text \<open>
  Claim C5, amended. \<^verbatim>\<open>crossoverSinglePoint\<close> does not check the pivot and returns an
  offspring for every pivot; the slices clip. For a pivot above \<open>n_bits\<close> the offspring
  has the genome of \<^verbatim>\<open>self\<close>, for a pivot below \<open>- n_bits\<close> the genome of the mate, and
  for \<open>- n_bits \<le> pivot < 0\<close> the pivot counts from the end of the genome.
\<close>

theorem crossoverSinglePoint_clips:
  assumes "self < length (objs w)" and "mate < length (objs w)"
    and "genome_ok (objs w ! self)" and "genome_ok (objs w ! mate)"
    and "n_bits (objs w ! mate) = n_bits (objs w ! self)"
    and "crossoverSinglePoint w self mate k = (w', child)"
  shows "(n_bits (objs w ! self) < k \<longrightarrow>
            bit_string (objs w' ! child) = bit_string (objs w ! self))
       \<and> (k < - n_bits (objs w ! self) \<longrightarrow>
            bit_string (objs w' ! child) = bit_string (objs w ! mate))
       \<and> (- n_bits (objs w ! self) \<le> k \<and> k < 0 \<longrightarrow>
            bit_string (objs w' ! child)
              = take (nat (n_bits (objs w ! self) + k)) (bit_string (objs w ! self))
                @ drop (nat (n_bits (objs w ! self) + k)) (bit_string (objs w ! mate)))"
proof -
  from assms(6) have ch: "child = length (objs w)"
    and w': "objs w' = (objs w @ [Chromasome_init (n_bits (objs w ! self)) (fitness_fnc (objs w ! self))])
        [child := (Chromasome_init (n_bits (objs w ! self)) (fitness_fnc (objs w ! self)))
           \<lparr>bit_string := slice_to (bit_string (objs w ! self)) k @ slice_from (bit_string (objs w ! mate)) k\<rparr>]"
    by (auto simp: crossoverSinglePoint_def new_Chromasome_def Let_def)
  have c: "bit_string (objs w' ! child)
      = slice_to (bit_string (objs w ! self)) k @ slice_from (bit_string (objs w ! mate)) k"
    by (simp add: w' ch)
  have ls: "int (length (bit_string (objs w ! self))) = n_bits (objs w ! self)"
    using assms(3) by (simp add: genome_ok_def)
  have lm: "int (length (bit_string (objs w ! mate))) = n_bits (objs w ! self)"
    using assms(4,5) by (simp add: genome_ok_def)
  show ?thesis
    using ls lm by (auto simp: c slice_to_def slice_from_def)
qed

theorem crossoverSinglePoint_clips_witness:
  "genome_ok (objs w_cross ! 0) \<and> genome_ok (objs w_cross ! 1)
   \<and> n_bits (objs w_cross ! 0) < 5
   \<and> bit_string (objs (fst (crossoverSinglePoint w_cross 0 1 5))
                  ! snd (crossoverSinglePoint w_cross 0 1 5)) = [1, 1, 1, 1]"
proof -
  have k: "n_bits (objs w_cross ! 0) < 5"
    by (simp add: w_cross_facts)
  have run: "crossoverSinglePoint w_cross 0 1 5
     = (fst (crossoverSinglePoint w_cross 0 1 5), snd (crossoverSinglePoint w_cross 0 1 5))"
    by simp
  have bits: "bit_string (objs w_cross ! 0) = [1, 1, 1, 1]"
    by (simp add: w_cross_def chrom_def)
  show ?thesis
    using crossoverSinglePoint_clips [OF w_cross_facts(1,2,3,4,5) run] w_cross_facts(3,4) k
    by (simp add: bits)
qed

subsection \<open>Mutation\<close>

lemma length_fold_mutate_step:
  "length (fold (mutate_step rate rnd) is bs) = length bs"
  by (induction "is" arbitrary: bs) (simp_all add: mutate_step_def)

lemma fold_mutate_step_nth:
  assumes "n \<le> length bs"
  shows "fold (mutate_step rate rnd) [0..<n] bs ! j
         = (if j < n \<and> rnd j \<le> rate then py_not (bs ! j) else bs ! j)"
  using assms
proof (induction n arbitrary: j)
  case 0
  then show ?case by simp
next
  case (Suc n)
  define xs where "xs = fold (mutate_step rate rnd) [0..<n] bs"
  have len: "length xs = length bs"
    unfolding xs_def by (rule length_fold_mutate_step)
  have ih: "xs ! i = (if i < n \<and> rnd i \<le> rate then py_not (bs ! i) else bs ! i)" for i
    unfolding xs_def using Suc.prems by (intro Suc.IH) simp
  have step: "fold (mutate_step rate rnd) [0..<Suc n] bs = mutate_step rate rnd n xs"
    by (simp add: xs_def)
  show ?case
    unfolding step using Suc.prems len
    by (auto simp: mutate_step_def ih nth_list_update less_Suc_eq)
qed

text \<open>The genome after \<^verbatim>\<open>mutate\<close>: bit \<open>j\<close> is flipped exactly when the \<open>j\<close>-th outcome
  of the generator is at most the rate.\<close>

lemma mutate_bits:
  assumes "self < length (objs w)"
  shows "bit_string (objs (fst (mutate w self rate rnd)) ! self)
         = map (\<lambda>j. if rnd j \<le> rate then py_not (bit_string (objs w ! self) ! j)
                     else bit_string (objs w ! self) ! j) [0..<length (bit_string (objs w ! self))]"
  using assms
  by (auto simp: mutate_def Let_def py_range_def length_fold_mutate_step fold_mutate_step_nth
      intro!: nth_equalityI)

text \<open>Rate 1 flips every bit, whatever the generator returns in \<open>[0, 1)\<close>.\<close>

lemma mutate_rate_one:
  assumes "self < length (objs w)" and "\<forall>j. rnd j \<le> 1"
  shows "bit_string (objs (fst (mutate w self 1 rnd)) ! self) = map py_not (bit_string (objs w ! self))"
  using assms by (auto simp: mutate_bits intro!: nth_equalityI)

text \<open>Rate 0 leaves the genome as it is when no outcome of the generator is 0.\<close>

lemma mutate_rate_zero_positive_draws:
  assumes "self < length (objs w)" and "\<forall>j. 0 < rnd j"
  shows "bit_string (objs (fst (mutate w self 0 rnd)) ! self) = bit_string (objs w ! self)"
  using assms by (auto simp: mutate_bits not_le[symmetric] intro!: nth_equalityI)

text \<open>
  Claim C6 says that for every outcome of the generator, rate 0 leaves the genome
  unchanged. \<^verbatim>\<open>random.random()\<close> returns values in \<open>[0, 1)\<close>, 0 included, and the test is
  \<^verbatim>\<open>random.random() <= rate\<close>: at the outcome 0 every bit is flipped although the rate,
  documented as the probability of a flip, is 0.
\<close>

theorem mutate_rate_zero_flips_on_zero_draw:
  "bit_string (objs (fst (mutate w_mut 0 0 (\<lambda>i. 0))) ! 0) = [1, 0]"
  by (simp add: w_mut_def chrom_def mutate_def py_range_def mutate_step_def py_not_def upt_rec)

subsection \<open>Memoised fitness\<close>

text \<open>
  Claim C7. If a fitness value is cached, \<^verbatim>\<open>fitness()\<close> returns it and does not invoke
  the scoring function (the store, with its log of invocations, is unchanged). Two
  calls in a row return the same value, the second changes nothing, the value of the
  first is cached, and the scoring function is invoked at most once.
\<close>

theorem fitness_memoised:
  assumes "self < length (objs w)"
    and "fitness w self = (w1, v1)" and "fitness w1 self = (w2, v2)"
  shows "(\<forall>v. fitness_val (objs w ! self) = Some v \<longrightarrow> w1 = w \<and> v1 = v)
       \<and> fitness_val (objs w1 ! self) = Some v1
       \<and> v2 = v1 \<and> w2 = w1
       \<and> length (calls w2) \<le> Suc (length (calls w))"
proof (cases "fitness_val (objs w ! self)")
  case None
  with assms(2) have w1: "w1 = w\<lparr>objs := (objs w)[self := (objs w ! self)\<lparr>fitness_val := Some v1\<rparr>],
                    calls := calls w @ [bit_string (objs w ! self)]\<rparr>"
    by (auto simp: fitness_def Let_def)
  have c: "fitness_val (objs w1 ! self) = Some v1"
    using assms(1) by (simp add: w1)
  with assms(3) have "w2 = w1" "v2 = v1"
    by (auto simp: fitness_def Let_def)
  with c None show ?thesis by (simp add: w1)
next
  case (Some v)
  with assms(2) have "w1 = w" "v1 = v"
    by (auto simp: fitness_def Let_def)
  with Some assms(3) show ?thesis
    by (auto simp: fitness_def Let_def)
qed

theorem fitness_memoised_witness:
  "(1::nat) < length (objs w_scored)
   \<and> snd (fitness w_scored 1) = 2
   \<and> fitness (fst (fitness w_scored 1)) 1 = (fst (fitness w_scored 1), 2)
   \<and> length (calls (fst (fitness w_scored 1))) \<le> Suc (length (calls w_scored))"
proof -
  have h: "(1::nat) < length (objs w_scored)"
    by (simp add: w_scored_def)
  have r1: "fitness w_scored 1 = (fst (fitness w_scored 1), snd (fitness w_scored 1))"
    by simp
  have r2: "fitness (fst (fitness w_scored 1)) 1
     = (fst (fitness (fst (fitness w_scored 1)) 1), snd (fitness (fst (fitness w_scored 1)) 1))"
    by simp
  have v: "snd (fitness w_scored 1) = 2"
    by (simp add: fitness_def w_scored_def chrom_def count_ones_def)
  show ?thesis
    using fitness_memoised [OF h r1 r2] h v
    by (metis prod.collapse)
qed

subsection \<open>The genome length invariant\<close>

lemma uniform_loop_ok:
  assumes "\<forall>i\<in>set is. i < length sb" and "length mb = length sb" and "length cb = length sb"
  shows "\<exists>bs. uniform_loop sb mb rnd is cb = Inr bs \<and> length bs = length sb"
  using assms
proof (induction "is" arbitrary: cb)
  case Nil
  then show ?case by simp
next
  case (Cons i "is")
  then show ?case by (simp add: Let_def)
qed

lemma list_all_update:
  "list_all P xs \<Longrightarrow> P c \<Longrightarrow> list_all P (xs[i := c])"
  by (induction xs arbitrary: i) (auto split: nat.splits)

lemma genome_ok_nth:
  "list_all genome_ok (objs w) \<Longrightarrow> r < length (objs w) \<Longrightarrow> genome_ok (objs w ! r)"
  by (simp add: list_all_length)

text \<open>
  Claim C8. In a store where every individual has a genome of length \<open>n_bits\<close>:
  randomise and mutate (any rate) return \<^verbatim>\<open>self\<close>, whose \<open>n_bits\<close> field is unchanged and
  whose genome still has exactly \<open>n_bits\<close> bits, and change no other object;
  crossoverUniform (which does not fail) and crossoverSinglePoint (pivot in range),
  on parents of the same \<open>n_bits\<close>, return a new object appended to the store, whose
  \<open>n_bits\<close> field is that of the parents and whose genome has exactly \<open>n_bits\<close> bits,
  and change no existing object. So every individual of the resulting store has a
  genome of the length its \<open>n_bits\<close> says.
\<close>

theorem genome_length_invariant:
  assumes "list_all genome_ok (objs w)"
    and "self < length (objs w)" and "mate < length (objs w)"
    and "n_bits (objs w ! mate) = n_bits (objs w ! self)"
    and "0 \<le> k" and "k \<le> n_bits (objs w ! self)"
  shows "(\<exists>w'. randomise w self rc = (w', self)
            \<and> has_genome w' self (n_bits (objs w ! self))
            \<and> (objs w')[self := objs w ! self] = objs w
            \<and> list_all genome_ok (objs w'))
       \<and> (\<exists>w'. mutate w self rate rnd = (w', self)
            \<and> has_genome w' self (n_bits (objs w ! self))
            \<and> (objs w')[self := objs w ! self] = objs w
            \<and> list_all genome_ok (objs w'))
       \<and> (\<exists>w' c. crossoverUniform w self mate rnd = Inr (w', c)
            \<and> has_genome w' c (n_bits (objs w ! self))
            \<and> c = length (objs w) \<and> butlast (objs w') = objs w
            \<and> list_all genome_ok (objs w'))
       \<and> (\<exists>w' c. crossoverSinglePoint w self mate k = (w', c)
            \<and> has_genome w' c (n_bits (objs w ! self))
            \<and> c = length (objs w) \<and> butlast (objs w') = objs w
            \<and> list_all genome_ok (objs w'))"
proof -
  let ?s = "objs w ! self" and ?m = "objs w ! mate"
  let ?n = "n_bits ?s"
  have s: "int (length (bit_string ?s)) = ?n"
    using genome_ok_nth [OF assms(1,2)] by (simp add: genome_ok_def)
  have m: "int (length (bit_string ?m)) = ?n"
    using genome_ok_nth [OF assms(1,3)] assms(4) by (simp add: genome_ok_def)
  have nn: "0 \<le> ?n"
    using s by linarith
  \<comment> \<open>randomise\<close>
  let ?rs = "?s\<lparr>bit_string := map (\<lambda>i. choice [0, 1] (rc i)) (py_range ?n)\<rparr>"
  have r_eq: "randomise w self rc = (w\<lparr>objs := (objs w)[self := ?rs]\<rparr>, self)"
    by (simp add: randomise_def Let_def)
  have rok: "genome_ok ?rs"
    using nn by (simp add: genome_ok_def py_range_def)
  have r_has: "has_genome (w\<lparr>objs := (objs w)[self := ?rs]\<rparr>) self ?n"
    using assms(2) nn by (simp add: has_genome_def py_range_def)
  have r_frame: "(objs (w\<lparr>objs := (objs w)[self := ?rs]\<rparr>))[self := ?s] = objs w"
    by simp
  have r_all: "list_all genome_ok (objs (w\<lparr>objs := (objs w)[self := ?rs]\<rparr>))"
    using list_all_update [OF assms(1) rok] by simp
  have r: "\<exists>w'. randomise w self rc = (w', self) \<and> has_genome w' self ?n
            \<and> (objs w')[self := ?s] = objs w \<and> list_all genome_ok (objs w')"
    unfolding r_eq using r_has r_frame r_all by blast
  \<comment> \<open>mutate\<close>
  let ?ms = "?s\<lparr>bit_string := fold (mutate_step rate rnd)
        (py_range (int (length (bit_string ?s)))) (bit_string ?s)\<rparr>"
  have m_eq: "mutate w self rate rnd = (w\<lparr>objs := (objs w)[self := ?ms]\<rparr>, self)"
    by (simp add: mutate_def Let_def)
  have mok: "genome_ok ?ms"
    using s by (simp add: genome_ok_def length_fold_mutate_step)
  have m_has: "has_genome (w\<lparr>objs := (objs w)[self := ?ms]\<rparr>) self ?n"
    using assms(2) s by (simp add: has_genome_def length_fold_mutate_step)
  have m_frame: "(objs (w\<lparr>objs := (objs w)[self := ?ms]\<rparr>))[self := ?s] = objs w"
    by simp
  have m_all: "list_all genome_ok (objs (w\<lparr>objs := (objs w)[self := ?ms]\<rparr>))"
    using list_all_update [OF assms(1) mok] by simp
  have mu: "\<exists>w'. mutate w self rate rnd = (w', self) \<and> has_genome w' self ?n
            \<and> (objs w')[self := ?s] = objs w \<and> list_all genome_ok (objs w')"
    unfolding m_eq using m_has m_frame m_all by blast
  \<comment> \<open>crossoverUniform\<close>
  let ?init = "Chromasome_init ?n (fitness_fnc ?s)"
  have init: "length (bit_string ?init) = length (bit_string ?s)"
    using s by (simp add: Chromasome_init_def py_range_def)
  have "\<exists>bs. uniform_loop (bit_string ?s) (bit_string ?m) rnd
        (py_range (int (length (bit_string ?s)))) (bit_string ?init) = Inr bs
        \<and> length bs = length (bit_string ?s)"
  proof (rule uniform_loop_ok)
    show "\<forall>i\<in>set (py_range (int (length (bit_string ?s)))). i < length (bit_string ?s)"
      by (simp add: py_range_def)
    show "length (bit_string ?m) = length (bit_string ?s)"
      using s m by linarith
    show "length (bit_string ?init) = length (bit_string ?s)"
      by (rule init)
  qed
  then obtain bs where bs: "uniform_loop (bit_string ?s) (bit_string ?m) rnd
        (py_range (int (length (bit_string ?s)))) (bit_string ?init) = Inr bs"
      and lbs: "length bs = length (bit_string ?s)"
    by blast
  let ?uc = "?init\<lparr>bit_string := bs\<rparr>"
  have cu_eq: "crossoverUniform w self mate rnd = Inr (w\<lparr>objs := objs w @ [?uc]\<rparr>, length (objs w))"
    by (simp add: crossoverUniform_def new_Chromasome_def Let_def bs)
  have cok: "genome_ok ?uc"
    using s lbs by (simp add: genome_ok_def Chromasome_init_def)
  have cu_has: "has_genome (w\<lparr>objs := objs w @ [?uc]\<rparr>) (length (objs w)) ?n"
    using s lbs by (simp add: has_genome_def Chromasome_init_def)
  have cu_all: "list_all genome_ok (objs (w\<lparr>objs := objs w @ [?uc]\<rparr>))"
    using assms(1) cok by simp
  have cu_frame: "butlast (objs (w\<lparr>objs := objs w @ [?uc]\<rparr>)) = objs w"
    by simp
  have cu: "\<exists>w' c. crossoverUniform w self mate rnd = Inr (w', c) \<and> has_genome w' c ?n
            \<and> c = length (objs w) \<and> butlast (objs w') = objs w \<and> list_all genome_ok (objs w')"
    unfolding cu_eq using cu_has cu_frame cu_all by blast
  \<comment> \<open>crossoverSinglePoint\<close>
  let ?sc = "?init\<lparr>bit_string := slice_to (bit_string ?s) k @ slice_from (bit_string ?m) k\<rparr>"
  have sp_eq: "crossoverSinglePoint w self mate k = (w\<lparr>objs := objs w @ [?sc]\<rparr>, length (objs w))"
    by (simp add: crossoverSinglePoint_def new_Chromasome_def Let_def)
  have sp_len: "int (length (slice_to (bit_string ?s) k @ slice_from (bit_string ?m) k)) = ?n"
    using assms(5,6) s m by (simp add: slice_to_def slice_from_def)
  have spok: "genome_ok ?sc"
    using sp_len by (simp add: genome_ok_def Chromasome_init_def)
  have sp_has: "has_genome (w\<lparr>objs := objs w @ [?sc]\<rparr>) (length (objs w)) ?n"
    using sp_len by (simp add: has_genome_def Chromasome_init_def)
  have sp_all: "list_all genome_ok (objs (w\<lparr>objs := objs w @ [?sc]\<rparr>))"
    using assms(1) spok by simp
  have sp_frame: "butlast (objs (w\<lparr>objs := objs w @ [?sc]\<rparr>)) = objs w"
    by simp
  have sp: "\<exists>w' c. crossoverSinglePoint w self mate k = (w', c) \<and> has_genome w' c ?n
            \<and> c = length (objs w) \<and> butlast (objs w') = objs w \<and> list_all genome_ok (objs w')"
    unfolding sp_eq using sp_has sp_frame sp_all by blast
  from r mu cu sp show ?thesis by (intro conjI)
qed

theorem genome_length_invariant_witness:
  "list_all genome_ok (objs w_cross)
   \<and> (0::int) \<le> 2 \<and> 2 \<le> n_bits (objs w_cross ! 0) \<and> n_bits (objs w_cross ! 0) = 4
   \<and> has_genome (fst (randomise w_cross 0 (\<lambda>i. 1))) 0 4
   \<and> has_genome (fst (mutate w_cross 0 (1/2) (\<lambda>i. 0))) 0 4
   \<and> (\<exists>w'. crossoverUniform w_cross 0 1 (\<lambda>i. 0) = Inr (w', 2) \<and> has_genome w' 2 4)
   \<and> has_genome (fst (crossoverSinglePoint w_cross 0 1 2)) 2 4
   \<and> snd (crossoverSinglePoint w_cross 0 1 2) = 2"
proof -
  have k: "(0::int) \<le> 2" "2 \<le> n_bits (objs w_cross ! 0)"
    by (simp_all add: w_cross_facts)
  have len: "length (objs w_cross) = 2"
    by (simp add: w_cross_def)
  show ?thesis
    using genome_length_invariant [OF w_cross_facts(7,1,2,5) k, of "\<lambda>i. 1" "1/2" "\<lambda>i. 0"]
      w_cross_facts(7) k
    by (auto simp: w_cross_facts(6) len)
qed

subsection \<open>Selection on a scored population\<close>

lemma fitness_cached:
  "fitness_val (objs w ! r) \<noteq> None \<Longrightarrow> fitness w r = (w, cached_fitness w r)"
  by (auto simp: fitness_def cached_fitness_def Let_def)

lemma fitness_all_scored:
  "scored w pop \<Longrightarrow> fitness_all w pop = (w, map (cached_fitness w) pop)"
  by (induction pop) (simp_all add: scored_def fitness_cached)

lemma sort_key_pairs:
  "sort_key (\<lambda>(k, r). - k) (map (\<lambda>r. (f r, r)) xs)
   = map (\<lambda>r. (f r, r)) (sort_key (\<lambda>r. - f r) xs)"
proof (induction xs)
  case Nil
  then show ?case by simp
next
  case (Cons x xs)
  have "insort_key (\<lambda>(k, r). - k) (f x, x) (map (\<lambda>r. (f r, r)) ys)
      = map (\<lambda>r. (f r, r)) (insort_key (\<lambda>r. - f r) x ys)" for ys
    by (induction ys) simp_all
  with Cons show ?case by simp
qed

lemma sorted_by_fitness_scored:
  assumes "scored w pop"
  shows "sorted_by_fitness w pop = (w, sort_key (\<lambda>r. - cached_fitness w r) pop)"
proof -
  have z: "zip (map (cached_fitness w) pop) pop = map (\<lambda>r. (cached_fitness w r, r)) pop"
    by (induction pop) simp_all
  show ?thesis
    by (simp add: sorted_by_fitness_def fitness_all_scored [OF assms] z sort_key_pairs comp_def)
qed

lemma scored_sort_key:
  "scored w pop \<Longrightarrow> scored w (sort_key f pop)"
  by (simp add: scored_def list_all_iff)

lemma pick_scored:
  "scored w pop \<Longrightarrow> fst (pick w pop c r) = w"
  by (induction pop arbitrary: c) (simp_all add: scored_def fitness_cached Let_def)

lemma roulette_loop_scored:
  "roulette_loop w pop t n ps us = Some (w', ps') \<Longrightarrow> scored w pop \<Longrightarrow> w' = w"
proof (induction w pop t n ps us arbitrary: w' ps' rule: roulette_loop.induct)
  case (1 w pop t n ps u1 u2 us)
  show ?case
  proof (cases "int (length ps) < n")
    case False
    with "1.prems" show ?thesis by simp
  next
    case True
    obtain w1 l where p1: "pick w pop 0 (uniform 0 t u1) = (w1, l)"
      by (cases "pick w pop 0 (uniform 0 t u1)")
    have w1: "w1 = w"
      using pick_scored [OF "1.prems"(2), of 0 "uniform 0 t u1"] p1 by simp
    obtain w2 r where p2: "pick w1 pop 0 (uniform 0 t u2) = (w2, r)"
      by (cases "pick w1 pop 0 (uniform 0 t u2)")
    have w2: "w2 = w"
      using pick_scored [OF "1.prems"(2), of 0 "uniform 0 t u2"] p2 w1 by simp
    have sc: "scored w2 pop"
      using "1.prems"(2) w2 by simp
    show ?thesis
    proof (cases "l \<noteq> r \<and> (l, r) \<notin> set ps")
      case acc: True
      have run: "roulette_loop w2 pop t n (ps @ [(l, r)]) us = Some (w', ps')"
        using "1.prems"(1) True p1 p2 acc by simp
      show ?thesis
        using "1.IH"(1) [OF True p1 [symmetric] refl p2 [symmetric] refl acc run sc] w2 by simp
    next
      case rej: False
      have run: "roulette_loop w2 pop t n ps us = Some (w', ps')"
        using "1.prems"(1) True p1 p2 rej by auto
      show ?thesis
        using "1.IH"(2) [OF True p1 [symmetric] refl p2 [symmetric] refl rej run sc] w2 by simp
    qed
  qed
qed (simp_all split: if_splits)

lemma getRoulettePairs_scored:
  assumes "scored w (population ga)"
  shows "getRoulettePairs w ga n_pairs us
     = map_option (\<lambda>(w3, ps). (w3, ga\<lparr>population := sort_key (\<lambda>r. - cached_fitness w r) (population ga)\<rparr>, ps))
         (roulette_loop w (sort_key (\<lambda>r. - cached_fitness w r) (population ga))
            (sum_list (map (cached_fitness w) (sort_key (\<lambda>r. - cached_fitness w r) (population ga))))
            n_pairs [] us)"
  by (simp add: getRoulettePairs_def sorted_by_fitness_scored [OF assms]
      fitness_all_scored [OF scored_sort_key [OF assms]] split: option.splits)

lemma getBestPairs_scored:
  assumes "scored w (population ga)"
  shows "getBestPairs w ga n_pairs n_elites ds
     = map_option (\<lambda>res. (w, ga\<lparr>population := sort_key (\<lambda>r. - cached_fitness w r) (population ga)\<rparr>, res))
         (best_loop (slice_to (sort_key (\<lambda>r. - cached_fitness w r) (population ga)) n_pairs)
            (population_size ga) [] ds)"
  by (simp add: getBestPairs_def sorted_by_fitness_scored [OF assms] Let_def split: option.splits)

text \<open>
  Claim C9 says that after either call the population is unchanged, the same
  individuals in the same order. Both methods assign the sorted list to
  \<^verbatim>\<open>self.population\<close>: a population \<open>[0, 1]\<close> with fitness 1 and 2 is \<open>[1, 0]\<close> after
  \<^verbatim>\<open>getRoulettePairs\<close>.
\<close>

theorem getRoulettePairs_reorders_population:
  "getRoulettePairs w_asc ga_pair 1 [1/6, 5/6]
     = Some (w_asc, ga_pair\<lparr>population := [1, 0]\<rparr>, [(Some 1, Some 0)])
   \<and> population ga_pair = [0, 1]"
  by (simp add: getRoulettePairs_def ga_pair_def sorted_by_fitness_def w_asc_def chrom_def fitness_def uniform_def)

text \<open>
  Claim C9, amended. Neither selection strategy leaves the population as it was: both
  replace it by its stable sort in descending order of fitness. On a scored
  population that is the only effect: the population holds the same individuals, now
  in descending order of fitness, no individual is changed and the scoring function
  is not invoked.
\<close>

theorem selection_sorts_population:
  assumes "scored w (population ga)"
  shows "(getRoulettePairs w ga n_pairs us = Some (w', ga', ps) \<longrightarrow>
            w' = w \<and> ga' = ga\<lparr>population := sort_key (\<lambda>r. - cached_fitness w r) (population ga)\<rparr>)
       \<and> (getBestPairs w ga n_pairs n_elites ds = Some (w'', ga'', res) \<longrightarrow>
            w'' = w \<and> ga'' = ga\<lparr>population := sort_key (\<lambda>r. - cached_fitness w r) (population ga)\<rparr>)
       \<and> mset (sort_key (\<lambda>r. - cached_fitness w r) (population ga)) = mset (population ga)
       \<and> sorted (map (\<lambda>r. - cached_fitness w r)
                   (sort_key (\<lambda>r. - cached_fitness w r) (population ga)))"
proof -
  let ?pop = "sort_key (\<lambda>r. - cached_fitness w r) (population ga)"
  have a: "w' = w \<and> ga' = ga\<lparr>population := ?pop\<rparr>"
    if "getRoulettePairs w ga n_pairs us = Some (w', ga', ps)"
  proof -
    from that obtain w3 where
      run: "roulette_loop w ?pop (sum_list (map (cached_fitness w) ?pop)) n_pairs [] us = Some (w3, ps)"
      and eq: "w' = w3" "ga' = ga\<lparr>population := ?pop\<rparr>"
      by (auto simp: getRoulettePairs_scored [OF assms])
    from roulette_loop_scored [OF run scored_sort_key [OF assms]] eq show ?thesis by simp
  qed
  have b: "w'' = w \<and> ga'' = ga\<lparr>population := ?pop\<rparr>"
    if "getBestPairs w ga n_pairs n_elites ds = Some (w'', ga'', res)"
    using that by (auto simp: getBestPairs_scored [OF assms])
  have c: "mset ?pop = mset (population ga)"
    by simp
  have d: "sorted (map (\<lambda>r. - cached_fitness w r) ?pop)"
    by (rule sorted_sort_key)
  from a b c d show ?thesis by blast
qed

theorem selection_sorts_population_witness:
  "scored w_asc (population ga_pair)
   \<and> getRoulettePairs w_asc ga_pair 2 [1/6, 5/6, 5/6, 1/6]
       = Some (w_asc, ga_pair\<lparr>population := [1, 0]\<rparr>, [(Some 1, Some 0), (Some 0, Some 1)])
   \<and> getBestPairs w_asc ga_pair 2 0 [0, 1, 1, 0]
       = Some (w_asc, ga_pair\<lparr>population := [1, 0]\<rparr>, Inr [(1, 0), (0, 1)])
   \<and> sort_key (\<lambda>r. - cached_fitness w_asc r) (population ga_pair) = [1, 0]"
proof -
  have sc: "scored w_asc (population ga_pair)"
    by (simp add: scored_def w_asc_def ga_pair_def chrom_def)
  have srt: "sort_key (\<lambda>r. - cached_fitness w_asc r) (population ga_pair) = [1, 0]"
    by (simp add: cached_fitness_def w_asc_def ga_pair_def chrom_def)
  have r1: "getRoulettePairs w_asc ga_pair 2 [1/6, 5/6, 5/6, 1/6]
       = Some (w_asc, ga_pair\<lparr>population := [1, 0]\<rparr>, [(Some 1, Some 0), (Some 0, Some 1)])"
    by (simp add: getRoulettePairs_def ga_pair_def sorted_by_fitness_def w_asc_def chrom_def
        fitness_def uniform_def)
  have r2: "getBestPairs w_asc ga_pair 2 0 [0, 1, 1, 0]
       = Some (w_asc, ga_pair\<lparr>population := [1, 0]\<rparr>, Inr [(1, 0), (0, 1)])"
    by (simp add: getBestPairs_def ga_pair_def sorted_by_fitness_def w_asc_def chrom_def
        fitness_def slice_to_def best_loop.simps choice_def)
  show ?thesis
    using selection_sorts_population [OF sc, where n_pairs = 2 and us = "[1/6, 5/6, 5/6, 1/6]"
        and w' = w_asc and ga' = "ga_pair\<lparr>population := [1, 0]\<rparr>"
        and ps = "[(Some 1, Some 0), (Some 0, Some 1)]" and n_elites = 0 and ds = "[0, 1, 1, 0]"
        and w'' = w_asc and ga'' = "ga_pair\<lparr>population := [1, 0]\<rparr>"
        and res = "Inr [(1, 0), (0, 1)]"] sc srt r1 r2
    by simp
qed

subsection \<open>Roulette pairs\<close>

lemma pairs_ok_snoc:
  "pairs_ok ps \<Longrightarrow> a \<noteq> b \<Longrightarrow> (a, b) \<notin> set ps \<Longrightarrow> pairs_ok (ps @ [(a, b)])"
  by (simp add: pairs_ok_def)

lemma roulette_loop_pairs_ok:
  "roulette_loop w pop t n ps us = Some (w', ps') \<Longrightarrow> pairs_ok ps \<Longrightarrow> pairs_ok ps'"
proof (induction w pop t n ps us arbitrary: w' ps' rule: roulette_loop.induct)
  case (1 w pop t n ps u1 u2 us)
  show ?case
  proof (cases "int (length ps) < n")
    case False
    with "1.prems" show ?thesis by simp
  next
    case True
    obtain w1 l where p1: "pick w pop 0 (uniform 0 t u1) = (w1, l)"
      by (cases "pick w pop 0 (uniform 0 t u1)")
    obtain w2 r where p2: "pick w1 pop 0 (uniform 0 t u2) = (w2, r)"
      by (cases "pick w1 pop 0 (uniform 0 t u2)")
    show ?thesis
    proof (cases "l \<noteq> r \<and> (l, r) \<notin> set ps")
      case acc: True
      then have ok: "pairs_ok (ps @ [(l, r)])"
        using "1.prems"(2) by (simp add: pairs_ok_snoc)
      have run: "roulette_loop w2 pop t n (ps @ [(l, r)]) us = Some (w', ps')"
        using "1.prems"(1) True p1 p2 acc by simp
      show ?thesis
        using "1.IH"(1) [OF True p1 [symmetric] refl p2 [symmetric] refl acc run ok] .
    next
      case rej: False
      have run: "roulette_loop w2 pop t n ps us = Some (w', ps')"
        using "1.prems"(1) True p1 p2 rej by auto
      show ?thesis
        using "1.IH"(2) [OF True p1 [symmetric] refl p2 [symmetric] refl rej run "1.prems"(2)] .
    qed
  qed
qed (simp_all split: if_splits)

text \<open>
  Claim C2 says that no unordered pair occurs twice, neither as \<open>(a, b)\<close> twice nor as
  \<open>(a, b)\<close> and \<open>(b, a)\<close>. The test \<^verbatim>\<open>(left_parent, right_parent) not in parent_pairs\<close>
  compares ordered tuples: on two individuals of fitness 1 each (total fitness 2) and
  the outcomes 1/4, 3/4, 3/4, 1/4 the call returns both \<open>(0, 1)\<close> and \<open>(1, 0)\<close>.
\<close>

theorem getRoulettePairs_both_orders:
  "getRoulettePairs w_pair ga_pair 2 [1/4, 3/4, 3/4, 1/4]
     = Some (w_pair, ga_pair, [(Some 0, Some 1), (Some 1, Some 0)])"
  by (simp add: getRoulettePairs_def ga_pair_def sorted_by_fitness_def w_pair_def chrom_def fitness_def uniform_def)

text \<open>
  Claim C2, amended. Whenever \<^verbatim>\<open>getRoulettePairs\<close> returns, no returned pair has the
  same individual on both sides and no ordered pair \<open>(a, b)\<close> occurs twice. The pairs
  \<open>(a, b)\<close> and \<open>(b, a)\<close> may both occur.
\<close>

theorem getRoulettePairs_distinct_pairs:
  assumes "getRoulettePairs w ga n_pairs us = Some (w', ga', parent_pairs)"
  shows "list_all (\<lambda>(a, b). a \<noteq> b) parent_pairs \<and> distinct parent_pairs"
proof -
  obtain w1 pop where s: "sorted_by_fitness w (population ga) = (w1, pop)"
    by (cases "sorted_by_fitness w (population ga)")
  obtain w2 vs where f: "fitness_all w1 pop = (w2, vs)"
    by (cases "fitness_all w1 pop")
  from assms have "roulette_loop w2 pop (sum_list vs) n_pairs [] us = Some (w', parent_pairs)"
    by (auto simp: getRoulettePairs_def s f split: option.splits prod.splits)
  from roulette_loop_pairs_ok [OF this] show ?thesis
    by (simp add: pairs_ok_def)
qed

theorem getRoulettePairs_distinct_pairs_witness:
  "getRoulettePairs w_pair ga_pair 1 [1/4, 3/4] = Some (w_pair, ga_pair, [(Some 0, Some 1)])
   \<and> list_all (\<lambda>(a, b). a \<noteq> b) [(Some (0::nat), Some (1::nat))]
   \<and> distinct [(Some (0::nat), Some (1::nat))]"
proof -
  have run: "getRoulettePairs w_pair ga_pair 1 [1/4, 3/4] = Some (w_pair, ga_pair, [(Some 0, Some 1)])"
    by (simp add: getRoulettePairs_def ga_pair_def sorted_by_fitness_def w_pair_def chrom_def
        fitness_def uniform_def)
  show ?thesis
    using getRoulettePairs_distinct_pairs [OF run] run by simp
qed

subsection \<open>Roulette pairs without positive total fitness\<close>

lemma sum_list_map_sort_key:
  "sum_list (map f (sort_key g xs)) = sum_list (map (f :: 'a \<Rightarrow> real) xs)"
proof -
  have "sum_list (map f (sort_key g xs)) = sum_mset (image_mset f (mset (sort_key g xs)))"
    by (metis mset_map sum_mset_sum_list)
  also have "\<dots> = sum_mset (image_mset f (mset xs))"
    by simp
  also have "\<dots> = sum_list (map f xs)"
    by (metis mset_map sum_mset_sum_list)
  finally show ?thesis .
qed

lemma roulette_loop_zero_total:
  assumes "scored w pop" and "int (length ps) < n"
  shows "roulette_loop w pop 0 n ps us = None"
proof (induction us rule: induct_list012)
  case 1
  from assms(2) show ?case by simp
next
  case (2 u)
  from assms(2) show ?case by simp
next
  case (3 u1 u2 us)
  obtain l where p1: "pick w pop 0 0 = (w, l)"
    using pick_scored [OF assms(1), of 0 0] by (cases "pick w pop 0 0") simp
  have u: "uniform 0 0 u1 = 0" "uniform 0 0 u2 = 0"
    by (simp_all add: uniform_def)
  show ?case
    using assms(2) "3.IH"(1) by (simp add: p1 u)
qed

lemma roulette_loop_no_pairs:
  "n \<le> 0 \<Longrightarrow> roulette_loop w pop t n [] us = Some (w, [])"
  by (cases "(w, pop, t, n, [] :: (ref option \<times> ref option) list, us)" rule: roulette_loop.cases) simp_all

text \<open>
  Claim C1 says that on a population whose total fitness is not strictly positive the
  call raises an error rather than returning pairs, and is not silently retried. On
  two individuals of fitness 0 (total fitness 0) the call with \<open>n_pairs = 0\<close> returns
  the empty list, and the call with \<open>n_pairs = 1\<close> has, after two rounds of draws,
  neither returned nor raised: both rounds were rejected and the loop goes on.
\<close>

theorem getRoulettePairs_zero_total_no_error:
  "sum_list (map (cached_fitness w_zero) (population ga_pair)) = 0
   \<and> getRoulettePairs w_zero ga_pair 0 [] = Some (w_zero, ga_pair, [])
   \<and> getRoulettePairs w_zero ga_pair 1 [1/2, 1/3, 1/4, 1/5] = None"
  by (simp add: getRoulettePairs_def ga_pair_def sorted_by_fitness_def w_zero_def chrom_def
      fitness_def uniform_def cached_fitness_def Let_def)

text \<open>
  Claim C1, amended. \<^verbatim>\<open>getRoulettePairs\<close> has no check of the total fitness and raises
  no error. On a scored population of total fitness 0 every draw is \<open>r = 0\<close>, both
  parents are the same selection and the pair is rejected: for \<open>n_pairs \<ge> 1\<close> the call
  does not return, however many outcomes the generator supplies, and for
  \<open>n_pairs \<le> 0\<close> it returns the empty list.
\<close>

theorem getRoulettePairs_zero_total:
  assumes "scored w (population ga)"
    and "sum_list (map (cached_fitness w) (population ga)) = 0"
  shows "(1 \<le> n_pairs \<longrightarrow> getRoulettePairs w ga n_pairs us = None)
       \<and> (n_pairs \<le> 0 \<longrightarrow> getRoulettePairs w ga n_pairs us
             = Some (w, ga\<lparr>population := sort_key (\<lambda>r. - cached_fitness w r) (population ga)\<rparr>, []))"
proof -
  let ?pop = "sort_key (\<lambda>r. - cached_fitness w r) (population ga)"
  have t: "sum_list (map (cached_fitness w) ?pop) = 0"
    using assms(2) by (simp add: sum_list_map_sort_key)
  have a: "getRoulettePairs w ga n_pairs us = None" if "1 \<le> n_pairs"
    using roulette_loop_zero_total [OF scored_sort_key [OF assms(1)], where ps = "[]" and n = n_pairs and us = us] that
    by (simp add: getRoulettePairs_scored [OF assms(1)] t)
  have b: "getRoulettePairs w ga n_pairs us = Some (w, ga\<lparr>population := ?pop\<rparr>, [])" if "n_pairs \<le> 0"
    using that by (simp add: getRoulettePairs_scored [OF assms(1)] roulette_loop_no_pairs)
  from a b show ?thesis by blast
qed

theorem getRoulettePairs_zero_total_witness:
  "scored w_zero (population ga_pair)
   \<and> sum_list (map (cached_fitness w_zero) (population ga_pair)) = 0
   \<and> getRoulettePairs w_zero ga_pair 1 [1/2, 1/2, 1/3, 2/3] = None
   \<and> getRoulettePairs w_zero ga_pair 0 [1/2, 1/2] = Some (w_zero, ga_pair, [])"
proof -
  have sc: "scored w_zero (population ga_pair)"
    by (simp add: scored_def w_zero_def ga_pair_def chrom_def)
  have tot: "sum_list (map (cached_fitness w_zero) (population ga_pair)) = 0"
    by (simp add: cached_fitness_def w_zero_def ga_pair_def chrom_def)
  have srt: "sort_key (\<lambda>r. - cached_fitness w_zero r) (population ga_pair) = [0, 1]"
    by (simp add: cached_fitness_def w_zero_def ga_pair_def chrom_def)
  have same: "ga_pair\<lparr>population := [0, Suc 0]\<rparr> = ga_pair"
    by (simp add: ga_pair_def)
  show ?thesis
    using getRoulettePairs_zero_total [OF sc tot, of 1 "[1/2, 1/2, 1/3, 2/3]"]
      getRoulettePairs_zero_total [OF sc tot, of 0 "[1/2, 1/2]"] sc tot
    by (simp add: srt same)
qed

subsection \<open>Single-point crossover of a generation\<close>









end
